theory Spec2Isabelle
  imports Main
begin

section \<open>Text as Python sees it\<close>

text \<open>
  A Python \<open>str\<close> is a sequence of code points. The model reads a \<^typ>\<open>char\<close> as a
  code point in the range 0..255 and a \<^typ>\<open>string\<close> as a \<open>str\<close> over that range.
  The character classes below are the ones Python's \<open>re\<close> module (on \<open>str\<close>
  patterns) and the \<open>str\<close> methods use, restricted to that range:
  \<open>\d\<close> is 0-9; \<open>\w\<close> is \<open>str.isalnum\<close> or the underscore; \<open>\s\<close> and
  \<open>str.strip\<close> use \<open>str.isspace\<close>.
\<close>

definition isdigit :: "char \<Rightarrow> bool" where
  "isdigit c \<longleftrightarrow> (let n = (of_char c :: nat) in 48 \<le> n \<and> n \<le> 57)"

definition isalnum :: "char \<Rightarrow> bool" where
  "isalnum c \<longleftrightarrow>
     (let n = (of_char c :: nat) in
        (48 \<le> n \<and> n \<le> 57) \<or> (65 \<le> n \<and> n \<le> 90) \<or> (97 \<le> n \<and> n \<le> 122) \<or>
        n = 170 \<or> n = 178 \<or> n = 179 \<or> n = 181 \<or> n = 185 \<or> n = 186 \<or>
        (188 \<le> n \<and> n \<le> 190) \<or> (192 \<le> n \<and> n \<le> 214) \<or>
        (216 \<le> n \<and> n \<le> 246) \<or> (248 \<le> n \<and> n \<le> 255))"

definition is_word :: "char \<Rightarrow> bool" where
  "is_word c \<longleftrightarrow> isalnum c \<or> c = CHR ''_''"

definition isspace :: "char \<Rightarrow> bool" where
  "isspace c \<longleftrightarrow>
     (let n = (of_char c :: nat) in
        (9 \<le> n \<and> n \<le> 13) \<or> (28 \<le> n \<and> n \<le> 32) \<or> n = 133 \<or> n = 160)"

text \<open>\<open>str.lower\<close>: A-Z and the upper-case letters of 192..222 (215 is the
  multiplication sign) move up by 32; no other code point below 256 changes.\<close>

definition lower_char :: "char \<Rightarrow> char" where
  "lower_char c =
     (let n = (of_char c :: nat) in
        if (65 \<le> n \<and> n \<le> 90) \<or> (192 \<le> n \<and> n \<le> 222 \<and> n \<noteq> 215)
        then char_of (n + 32) else c)"

definition lower :: "string \<Rightarrow> string" where
  "lower s = map lower_char s"

text \<open>\<open>a in b\<close> on strings: \<open>a\<close> occurs in \<open>b\<close> as a contiguous substring.\<close>

fun str_in :: "string \<Rightarrow> string \<Rightarrow> bool" where
  "str_in a [] \<longleftrightarrow> a = []"
| "str_in a (c # cs) \<longleftrightarrow> take (length a) (c # cs) = a \<or> str_in a cs"

text \<open>\<open>str.strip()\<close> with no argument removes leading and trailing whitespace.\<close>

definition strip :: "string \<Rightarrow> string" where
  "strip s = rev (dropWhile isspace (rev (dropWhile isspace s)))"

text \<open>\<open>int(s)\<close> on a string of decimal digits, and \<open>str(n)\<close> for \<open>n \<ge> 0\<close>. Every
  integer the program formats is non-negative (it is read from digits, and 12 is
  subtracted only from an hour above 12), so the model uses \<^typ>\<open>nat\<close>.\<close>

definition digit_val :: "char \<Rightarrow> nat" where
  "digit_val c = of_char c - 48"

definition int_of_digits :: "string \<Rightarrow> nat" where
  "int_of_digits s = foldl (\<lambda>a c. 10 * a + digit_val c) 0 s"

definition digit_char :: "nat \<Rightarrow> char" where
  "digit_char d = char_of (48 + d)"

fun str_nat :: "nat \<Rightarrow> string" where
  "str_nat n = (if n < 10 then [digit_char n] else str_nat (n div 10) @ [digit_char (n mod 10)])"

declare str_nat.simps [simp del]

text \<open>The format spec \<open>{minute:02d}\<close>: decimal, padded with zeros to width 2.\<close>

definition pad2 :: "nat \<Rightarrow> string" where
  "pad2 n = (if n < 10 then CHR ''0'' # str_nat n else str_nat n)"

section \<open>TextNormalizer: \<open>clean_text_for_tts\<close>\<close>

text \<open>The three \<open>re.sub\<close> calls and the \<open>strip\<close> of lines 117-120, in order.\<close>

definition dash_to_space :: "char \<Rightarrow> char" where
  \<comment> \<open>the class \<open>[-_/\\|]\<close>; \<open>CHR 0x5C\<close> is the backslash\<close>
  "dash_to_space c =
     (if c = CHR ''-'' \<or> c = CHR ''_'' \<or> c = CHR ''/'' \<or> c = CHR 0x5C \<or> c = CHR ''|''
      then CHR '' '' else c)"

function collapse_spaces :: "string \<Rightarrow> string" where
  "collapse_spaces [] = []"
| "collapse_spaces (c # cs) =
     (if isspace c then CHR '' '' # collapse_spaces (dropWhile isspace cs)
      else c # collapse_spaces cs)"
  by pat_completeness auto
termination
  by (relation "measure length") (auto simp: length_dropWhile_le less_Suc_eq_le)

definition clean_text_for_tts :: "string \<Rightarrow> string" where
  "clean_text_for_tts text =
     (if text = [] then text
      else strip (collapse_spaces (filter (\<lambda>c. is_word c \<or> isspace c) (map dash_to_space text))))"

text \<open>Python's \<open>None\<close> is falsy as well, so line 113 returns it as it came.\<close>

definition clean_text_for_tts_opt :: "string option \<Rightarrow> string option" where
  "clean_text_for_tts_opt text =
     (case text of None \<Rightarrow> None | Some t \<Rightarrow> Some (clean_text_for_tts t))"

section \<open>TimeHumanizer\<close>

subsection \<open>\<open>fix_24h_times_for_tts\<close>\<close>

text \<open>The callback \<open>convert_24h_time\<close> of lines 131-144; \<open>time_str\<close> is the matched
  text, four digits.\<close>

definition convert_24h_time :: "string \<Rightarrow> string" where
  "convert_24h_time time_str =
     (let hour = int_of_digits (take 2 time_str);
          minute = int_of_digits (drop 2 time_str)
      in if hour = 0 then
           (if minute = 0 then ''midnight'' else ''12 '' @ pad2 minute @ '' AM'')
         else if hour = 12 then
           (if minute = 0 then ''noon'' else ''12 '' @ pad2 minute @ '' PM'')
         else if hour > 12 then
           (if minute = 0 then str_nat (hour - 12) else str_nat (hour - 12) @ '' '' @ pad2 minute)
         else
           (if minute = 0 then str_nat hour else str_nat hour @ '' '' @ pad2 minute))"

text \<open>
  The pattern \<open>\b([0-2]\d[0-5]\d)\b\<close> of line 148 at the head of the remaining text.
  \<open>prev_word\<close> says whether the character before this position is a word character
  (false at the start of the text). The pattern begins and ends with a digit, a word
  character, so the first \<open>\b\<close> holds iff the previous character is not a word
  character, and the second iff the text ends after the four digits or goes on with a
  character that is not a word character.
\<close>

definition military_at :: "bool \<Rightarrow> string \<Rightarrow> bool" where
  "military_at prev_word s \<longleftrightarrow>
     (case s of
        a # b # c # d # rest \<Rightarrow>
          \<not> prev_word \<and> a \<in> set ''012'' \<and> isdigit b \<and> c \<in> set ''012345'' \<and> isdigit d \<and>
          (case rest of [] \<Rightarrow> True | e # _ \<Rightarrow> \<not> is_word e)
      | _ \<Rightarrow> False)"

text \<open>
  \<open>re.sub\<close> scans from left to right: where the pattern matches, the callback's result
  replaces the four digits and the scan goes on behind them; elsewhere the character is
  copied. Word boundaries are those of the original text.
\<close>

function sub_military :: "bool \<Rightarrow> string \<Rightarrow> string" where
  "sub_military prev_word [] = []"
| "sub_military prev_word (c # cs) =
     (if military_at prev_word (c # cs)
      then convert_24h_time (take 4 (c # cs)) @ sub_military True (drop 3 cs)
      else c # sub_military (is_word c) cs)"
  by pat_completeness auto
termination
  by (relation "measure (\<lambda>(p, s). length s)") auto

definition fix_24h_times_for_tts :: "string \<Rightarrow> string" where
  "fix_24h_times_for_tts text = (if text = [] then text else sub_military False text)"


subsection \<open>\<open>format_time_for_speech\<close>\<close>

text \<open>
  \<open>re.match(r'(\d{1,2}):(\d{2})\s*(AM|PM)', time_str)\<close> matches at the start of the
  string and says nothing about what follows the match. \<open>match_period\<close> is the part
  \<open>\s*(AM|PM)\<close>: the whitespace is skipped greedily, and giving some of it back never
  helps, since neither alternative begins with whitespace.
\<close>

definition match_period :: "string \<Rightarrow> string option" where
  "match_period s =
     (let r = dropWhile isspace s
      in if take 2 r = ''AM'' then Some ''AM''
         else if take 2 r = ''PM'' then Some ''PM''
         else None)"

text \<open>The match with an hour group of exactly \<open>k\<close> digits: the groups 1, 2 and 3,
  the first two already through \<open>int\<close>.\<close>

definition match_with_hour :: "nat \<Rightarrow> string \<Rightarrow> (nat \<times> nat \<times> string) option" where
  "match_with_hour k s =
     (if k \<le> length s \<and> list_all isdigit (take k s) then
        (case drop k s of
           c # m1 # m2 # rest \<Rightarrow>
             if c = CHR '':'' \<and> isdigit m1 \<and> isdigit m2 then
               (case match_period rest of
                  Some period \<Rightarrow> Some (int_of_digits (take k s), int_of_digits [m1, m2], period)
                | None \<Rightarrow> None)
             else None
         | _ \<Rightarrow> None)
      else None)"

text \<open>\<open>\d{1,2}\<close> is greedy: two digits are tried first, one digit on backtracking.\<close>

definition time_match :: "string \<Rightarrow> (nat \<times> nat \<times> string) option" where
  "time_match s =
     (case match_with_hour 2 s of
        Some r \<Rightarrow> Some r
      | None \<Rightarrow> match_with_hour 1 s)"

definition format_time_for_speech :: "string \<Rightarrow> string" where
  "format_time_for_speech time_str =
     (case time_match time_str of
        Some (h, minute, period) \<Rightarrow>
          (let hour = (if period = ''PM'' \<and> h \<noteq> 12 then h + 12
                       else if period = ''AM'' \<and> h = 12 then 0
                       else h)
           in if minute = 0 then
                (if hour = 0 then ''midnight''
                 else if hour = 12 then ''noon''
                 else if hour > 12 then str_nat (hour - 12)
                 else str_nat hour)
              else
                (if hour > 12 then str_nat (hour - 12) @ '' '' @ pad2 minute
                 else str_nat hour @ '' '' @ pad2 minute))
      | None \<Rightarrow> time_str)"

text \<open>
  The strings this function is given are built at lines 290-291 and 456-457 by
  \<open>strftime('%I:%M %p')\<close>: the hour on the 12-hour clock and the minute, each padded
  to two digits, a blank, and \<open>AM\<close> or \<open>PM\<close>. \<open>hour24\<close> is the hour of the
  \<open>datetime\<close>, 0 to 23.
\<close>

definition strftime_IMp :: "nat \<Rightarrow> nat \<Rightarrow> string" where
  "strftime_IMp hour24 minute =
     pad2 (if hour24 mod 12 = 0 then 12 else hour24 mod 12) @ '':'' @ pad2 minute @ '' '' @
     (if hour24 < 12 then ''AM'' else ''PM'')"

section \<open>TransitionPicker and greeting\<close>

text \<open>
  \<open>random.choice(transitions)\<close> returns \<open>transitions[k]\<close> for a random index \<open>k\<close>
  below 3. The generator is global state in Python; the model passes it along as the
  sequence of numbers still to be drawn, and reduces each draw modulo 3.
\<close>

type_synonym rng = "nat \<Rightarrow> nat"

definition transitions :: "string list" where
  "transitions = [''followed by'', ''then'', ''next'']"

definition get_random_transition :: "rng \<Rightarrow> string \<times> rng" where
  "get_random_transition g = (transitions ! (g 0 mod 3), (\<lambda>i. g (Suc i)))"

text \<open>\<open>get_time_greeting\<close> reads the clock; the model takes the hour as an argument.\<close>

definition get_time_greeting :: "nat \<Rightarrow> string" where
  "get_time_greeting current_hour =
     (if 5 \<le> current_hour \<and> current_hour < 12 then ''Good morning''
      else if 12 \<le> current_hour \<and> current_hour < 17 then ''Good afternoon''
      else if 17 \<le> current_hour \<and> current_hour < 21 then ''Good evening''
      else ''Good night'')"

section \<open>EventPhraseBuilder: \<open>create_meeting_summary\<close>\<close>

text \<open>
  An event is the dictionary built at lines 293-321 and 459-485: string keys, and for
  the four keys the narrative reads, string values. Subscripting with a key the
  dictionary lacks raises \<open>KeyError\<close>; subscripting an empty list raises
  \<open>IndexError\<close>. The other exceptions come from the console: \<open>input()\<close> raises
  \<open>EOFError\<close> when the input has ended and \<open>KeyboardInterrupt\<close> when the user
  interrupts, and \<open>print\<close> raises \<open>UnicodeEncodeError\<close>, with a message, when the
  console cannot encode a character. \<open>is_Exception\<close> is \<open>isinstance(e, Exception)\<close>:
  \<open>KeyboardInterrupt\<close> derives from \<open>BaseException\<close> only. \<open>str_error\<close> is
  \<open>str(e)\<close>, the text the handler of line 614 prints; for a \<open>KeyError\<close> that is the
  \<open>repr\<close> of the key, which for the keys used here is the key in single quotes.
\<close>

type_synonym event = "string \<rightharpoonup> string"

datatype error =
  KeyError string | IndexError | EOFError | UnicodeEncodeError string | KeyboardInterrupt

definition is_Exception :: "error \<Rightarrow> bool" where
  "is_Exception e \<longleftrightarrow> e \<noteq> KeyboardInterrupt"

definition getitem :: "event \<Rightarrow> string \<Rightarrow> error + string" where
  "getitem event key = (case event key of None \<Rightarrow> Inl (KeyError key) | Some v \<Rightarrow> Inr v)"

definition str_error :: "error \<Rightarrow> string" where
  "str_error e =
     (case e of
        KeyError key \<Rightarrow> [CHR 0x27] @ key @ [CHR 0x27]
      | IndexError \<Rightarrow> ''list index out of range''
      | EOFError \<Rightarrow> ''EOF when reading a line''
      | UnicodeEncodeError message \<Rightarrow> message
      | KeyboardInterrupt \<Rightarrow> [])"

text \<open>The dictionary the calendar readers build, with the four keys the narrative uses.\<close>

definition mk_event :: "string \<Rightarrow> string \<Rightarrow> string \<Rightarrow> string \<Rightarrow> event" where
  "mk_event subject start_time end_time organizer =
     [''subject'' \<mapsto> subject, ''start_time'' \<mapsto> start_time,
      ''end_time'' \<mapsto> end_time, ''organizer'' \<mapsto> organizer]"

text \<open>
  The phrase for one event, lines 548-564, once the four values are read. The test of
  line 561 is on \<open>organizer\<close>, the value after the default of line 548 has been put in.
\<close>

definition meeting_phrase :: "string \<Rightarrow> string \<Rightarrow> string \<Rightarrow> string \<Rightarrow> string \<Rightarrow> string" where
  "meeting_phrase user_name ev_organizer ev_subject ev_start ev_end =
     (let organizer = (if ev_organizer \<noteq> [] then ev_organizer else ''Unknown organizer'');
          clean_subject = fix_24h_times_for_tts (clean_text_for_tts ev_subject);
          clean_organizer = clean_text_for_tts organizer;
          start_time = format_time_for_speech ev_start;
          end_time = format_time_for_speech ev_end;
          time_range = start_time @ '' to '' @ end_time
      in if organizer \<noteq> [] \<and> user_name \<noteq> [] \<and> str_in (lower user_name) (lower organizer)
         then clean_subject @ '' from '' @ time_range
         else clean_subject @ '' from '' @ time_range @ '' with '' @ clean_organizer)"

text \<open>The body of the loop: the keys are read in the order organizer, subject,
  start_time, end_time, and the first one missing raises.\<close>

definition meeting_part :: "string \<Rightarrow> event \<Rightarrow> error + string" where
  "meeting_part user_name event =
     (case getitem event ''organizer'' of Inl e \<Rightarrow> Inl e | Inr ev_organizer \<Rightarrow>
     (case getitem event ''subject'' of Inl e \<Rightarrow> Inl e | Inr ev_subject \<Rightarrow>
     (case getitem event ''start_time'' of Inl e \<Rightarrow> Inl e | Inr ev_start \<Rightarrow>
     (case getitem event ''end_time'' of Inl e \<Rightarrow> Inl e | Inr ev_end \<Rightarrow>
        Inr (meeting_phrase user_name ev_organizer ev_subject ev_start ev_end)))))"

fun create_meeting_summary :: "string \<Rightarrow> event list \<Rightarrow> error + string list" where
  "create_meeting_summary user_name [] = Inr []"
| "create_meeting_summary user_name (event # events) =
     (case meeting_part user_name event of
        Inl e \<Rightarrow> Inl e
      | Inr part \<Rightarrow>
          (case create_meeting_summary user_name events of
             Inl e \<Rightarrow> Inl e
           | Inr parts \<Rightarrow> Inr (part # parts)))"

section \<open>NarrativeAssembler and BriefingComposer: \<open>get_ai_day_analysis\<close>\<close>

text \<open>The loops of lines 583-585 and 604-606 over the parts between the first and the
  last, one transition drawn for each.\<close>

fun add_middle :: "rng \<Rightarrow> string \<Rightarrow> string list \<Rightarrow> string \<times> rng" where
  "add_middle g result [] = (result, g)"
| "add_middle g result (part # parts) =
     (case get_random_transition g of
        (transition, g') \<Rightarrow> add_middle g' (result @ '', '' @ transition @ '' '' @ part) parts)"

text \<open>
  Lines 573-588 and 597-607 are the same three-way branch on the number of parts; they
  differ in the text put before the first part, \<open>intro1\<close> for one part and \<open>intro\<close>
  for more. With no part at all the last branch subscripts an empty list.
\<close>

definition assemble :: "rng \<Rightarrow> string \<Rightarrow> string \<Rightarrow> string list \<Rightarrow> error + string \<times> rng" where
  "assemble g intro1 intro meeting_parts =
     (case meeting_parts of
        [p0] \<Rightarrow> Inr (intro1 @ p0 @ ''.'', g)
      | [p0, p1] \<Rightarrow>
          (case get_random_transition g of
             (transition, g') \<Rightarrow> Inr (intro @ p0 @ '', '' @ transition @ '' '' @ p1 @ ''.'', g'))
      | [] \<Rightarrow> Inl IndexError
      | p0 # rest \<Rightarrow>
          (case add_middle g (intro @ p0) (butlast rest) of
             (result, g') \<Rightarrow> Inr (result @ '', and finally '' @ last rest @ ''.'', g')))"

text \<open>
  The \<open>try\<close> block, lines 502-611. The first parameter of the Python function,
  \<open>events_summary\<close>, is never read and is left out; \<open>current_hour\<close> and \<open>user_name\<close>
  stand for what \<open>get_time_greeting\<close> and \<open>get_user_name\<close> obtain. \<open>None\<close> and the
  empty list are both falsy, at line 502 and at line 593.
\<close>

definition falsy :: "event list option \<Rightarrow> bool" where
  "falsy tomorrow_events_data \<longleftrightarrow>
     (case tomorrow_events_data of None \<Rightarrow> True | Some events \<Rightarrow> events = [])"

definition day_analysis_body ::
  "rng \<Rightarrow> nat \<Rightarrow> string \<Rightarrow> event list \<Rightarrow> event list option \<Rightarrow> error + string" where
  "day_analysis_body g current_hour user_name events_data tomorrow_events_data =
     (let greeting = get_time_greeting current_hour in
      if events_data = [] \<and> falsy tomorrow_events_data then
        Inr (greeting @ '' '' @ user_name @
             ''! You have a free day with no scheduled meetings - perfect time to catch up on personal projects or take a well-deserved break!'')
      else
        (case (if events_data \<noteq> [] then
                 (case create_meeting_summary user_name events_data of
                    Inl e \<Rightarrow> Inl e
                  | Inr meeting_parts \<Rightarrow>
                      assemble g (greeting @ '' '' @ user_name @ ''! You start your day with '')
                        (greeting @ '' '' @ user_name @ ''! You start your day with '') meeting_parts)
               else Inr (greeting @ '' '' @ user_name @ ''! You have a free day today.'', g))
         of
           Inl e \<Rightarrow> Inl e
         | Inr (result, g') \<Rightarrow>
             (case tomorrow_events_data of
                None \<Rightarrow> Inr result
              | Some tomorrow_events \<Rightarrow>
                  if tomorrow_events = [] then Inr result
                  else
                    (case create_meeting_summary user_name tomorrow_events of
                       Inl e \<Rightarrow> Inl e
                     | Inr tomorrow_parts \<Rightarrow>
                         if tomorrow_parts \<noteq> [] then
                           (case assemble g' '' Tomorrow you have '' '' Tomorrow you start with ''
                                   tomorrow_parts of
                              Inl e \<Rightarrow> Inl e
                            | Inr (tomorrow_text, g'') \<Rightarrow> Inr (result @ tomorrow_text))
                         else Inr (result @ '' Tomorrow is free with no scheduled meetings.'')))))"

text \<open>The handler of line 613 turns every failure of the block into a sentence.
  \<open>get_ai_day_analysis\<close> is the function once line 499 has printed its progress
  line and \<open>get_user_name\<close> has returned \<open>user_name\<close>.\<close>

definition get_ai_day_analysis ::
  "rng \<Rightarrow> nat \<Rightarrow> string \<Rightarrow> event list \<Rightarrow> event list option \<Rightarrow> string" where
  "get_ai_day_analysis g current_hour user_name events_data tomorrow_events_data =
     (case day_analysis_body g current_hour user_name events_data tomorrow_events_data of
        Inr result \<Rightarrow> result
      | Inl e \<Rightarrow> ''Sorry, I couldn't create your day summary due to an error: '' @ str_error e)"

text \<open>
  The whole call, lines 496-614, with the console in it. \<open>printed\<close> is what the
  \<open>print\<close> of line 499 does: \<open>None\<close> when it prints, \<open>Some e\<close> when it raises
  \<open>e\<close>; that line stands before the \<open>try\<close>, so whatever it raises leaves the
  function. \<open>named\<close> is what the call of \<open>get_user_name\<close> at line 504 or 508 does,
  the first thing in either branch that can raise: it returns a name, or \<open>input()\<close>
  raises. The handler of line 613 is \<open>except Exception\<close>: it catches the exceptions
  that are instances of \<open>Exception\<close> and lets the others pass.
\<close>

definition get_ai_day_analysis_call ::
  "error option \<Rightarrow> error + string \<Rightarrow> rng \<Rightarrow> nat \<Rightarrow> event list \<Rightarrow> event list option \<Rightarrow>
   error + string" where
  "get_ai_day_analysis_call printed named g current_hour events_data tomorrow_events_data =
     (case printed of
        Some e \<Rightarrow> Inl e
      | None \<Rightarrow>
          (case (case named of
                   Inl e \<Rightarrow> Inl e
                 | Inr user_name \<Rightarrow>
                     day_analysis_body g current_hour user_name events_data tomorrow_events_data)
           of
             Inr result \<Rightarrow> Inr result
           | Inl e \<Rightarrow>
               if is_Exception e
               then Inr (''Sorry, I couldn't create your day summary due to an error: '' @ str_error e)
               else Inl e))"

section \<open>Notions the properties are stated with\<close>

text \<open>The first of the keys read at lines 548-557, in the order they are read, that an
  event lacks; the first such key over a list of events; and the events of tomorrow,
  none when the list is absent.\<close>

definition missing_key :: "event \<Rightarrow> string option" where
  "missing_key event =
     (if event ''organizer'' = None then Some ''organizer''
      else if event ''subject'' = None then Some ''subject''
      else if event ''start_time'' = None then Some ''start_time''
      else if event ''end_time'' = None then Some ''end_time''
      else None)"

fun first_missing :: "event list \<Rightarrow> string option" where
  "first_missing [] = None"
| "first_missing (event # events) =
     (case missing_key event of Some key \<Rightarrow> Some key | None \<Rightarrow> first_missing events)"

definition events_of :: "event list option \<Rightarrow> event list" where
  "events_of tomorrow_events_data =
     (case tomorrow_events_data of None \<Rightarrow> [] | Some events \<Rightarrow> events)"

text \<open>The number of positions of a text at which a given string occurs.\<close>

fun occurrences :: "string \<Rightarrow> string \<Rightarrow> nat" where
  "occurrences a [] = (if a = [] then 1 else 0)"
| "occurrences a (c # cs) = (if take (length a) (c # cs) = a then 1 else 0) + occurrences a cs"

text \<open>The fixed text of line 505 that follows the user name.\<close>

definition free_day_suggestion :: string where
  "free_day_suggestion =
     ''! You have a free day with no scheduled meetings - perfect time to catch up on personal projects or take a well-deserved break!''"

text \<open>The text that joins phrases to what precedes them: each phrase after a comma, its
  connective and a blank.\<close>

definition connect :: "string list \<Rightarrow> string list \<Rightarrow> string" where
  "connect connectives phrases =
     concat (map (\<lambda>(c, p). '', '' @ c @ '' '' @ p) (zip connectives phrases))"

section \<open>Properties\<close>

subsection \<open>Strings and the normalizer's passes\<close>

text \<open>\<open>str_in\<close> is the substring test: it holds exactly when the second string is the
  first one with something before and something behind.\<close>

lemma str_in_iff: "str_in a b \<longleftrightarrow> (\<exists>p s. b = p @ a @ s)"
proof (induction b)
  case Nil
  then show ?case by auto
next
  case (Cons c cs)
  have pre: "take (length a) (c # cs) = a \<longleftrightarrow> (\<exists>s. c # cs = a @ s)"
  proof
    assume "take (length a) (c # cs) = a"
    then have "c # cs = a @ drop (length a) (c # cs)"
      by (metis append_take_drop_id)
    then show "\<exists>s. c # cs = a @ s" ..
  next
    assume "\<exists>s. c # cs = a @ s"
    then show "take (length a) (c # cs) = a" by auto
  qed
  have "(\<exists>p s. c # cs = p @ a @ s) \<longleftrightarrow> (\<exists>s. c # cs = a @ s) \<or> (\<exists>p s. cs = p @ a @ s)"
  proof
    assume "\<exists>p s. c # cs = p @ a @ s"
    then obtain p s where ps: "c # cs = p @ a @ s" by blast
    show "(\<exists>s. c # cs = a @ s) \<or> (\<exists>p s. cs = p @ a @ s)"
    proof (cases p)
      case Nil
      with ps show ?thesis by auto
    next
      case (Cons d p')
      with ps have "cs = p' @ a @ s" by simp
      then show ?thesis by blast
    qed
  next
    assume "(\<exists>s. c # cs = a @ s) \<or> (\<exists>p s. cs = p @ a @ s)"
    then show "\<exists>p s. c # cs = p @ a @ s"
    proof
      assume "\<exists>s. c # cs = a @ s"
      then obtain s where "c # cs = [] @ a @ s" by auto
      then show ?thesis by blast
    next
      assume "\<exists>p s. cs = p @ a @ s"
      then obtain p s where "cs = p @ a @ s" by blast
      then have "c # cs = (c # p) @ a @ s" by simp
      then show ?thesis by blast
    qed
  qed
  with pre Cons show ?case by simp
qed

lemma isspace_blank: "isspace (CHR '' '')"
  by (simp add: isspace_def)

lemma alnum_not_space: "isalnum c \<Longrightarrow> \<not> isspace c"
  by (auto simp: isalnum_def isspace_def Let_def)

lemma dash_to_space_range: "is_word (dash_to_space c) \<Longrightarrow> isalnum (dash_to_space c)"
  by (auto simp: dash_to_space_def is_word_def)

lemma dash_to_space_id: "isalnum c \<or> c = CHR '' '' \<Longrightarrow> dash_to_space c = c"
  by (auto simp: dash_to_space_def isalnum_def)

lemma collapse_chars:
  "c \<in> set (collapse_spaces s) \<Longrightarrow> c = CHR '' '' \<or> (c \<in> set s \<and> \<not> isspace c)"
proof (induction s rule: collapse_spaces.induct)
  case 1
  then show ?case by simp
next
  case (2 d ds)
  then show ?case
    by (auto split: if_splits dest: set_dropWhileD)
qed

lemma collapse_head:
  "s \<noteq> [] \<Longrightarrow> \<not> isspace (hd s) \<Longrightarrow> collapse_spaces s \<noteq> [] \<and> hd (collapse_spaces s) = hd s"
  by (cases s) auto

lemma collapse_no_double: "\<not> str_in ''  '' (collapse_spaces s)"
proof (induction s rule: collapse_spaces.induct)
  case 1
  then show ?case by simp
next
  case (2 c cs)
  show ?case
  proof (cases "isspace c")
    case True
    let ?r = "dropWhile isspace cs"
    have "collapse_spaces ?r = [] \<or> hd (collapse_spaces ?r) \<noteq> CHR '' ''"
    proof (cases "?r = []")
      case True
      then show ?thesis by (simp del: dropWhile_eq_Nil_conv)
    next
      case False
      then have "\<not> isspace (hd ?r)" by (rule hd_dropWhile)
      with False collapse_head [of ?r] isspace_blank show ?thesis by auto
    qed
    then have "take 2 (CHR '' '' # collapse_spaces ?r) \<noteq> ''  ''"
      by (cases "collapse_spaces ?r") auto
    with True 2 show ?thesis by simp
  next
    case False
    then have "c \<noteq> CHR '' ''" using isspace_blank by auto
    with False 2 show ?thesis by simp
  qed
qed

lemma collapse_id:
  "\<forall>c\<in>set s. isspace c \<longrightarrow> c = CHR '' '' \<Longrightarrow> \<not> str_in ''  '' s \<Longrightarrow> collapse_spaces s = s"
proof (induction s rule: collapse_spaces.induct)
  case 1
  then show ?case by simp
next
  case (2 c cs)
  from "2.prems"(1) have blanks: "\<forall>d\<in>set cs. isspace d \<longrightarrow> d = CHR '' ''"
    by simp
  from "2.prems"(2) have rest: "\<not> str_in ''  '' cs"
    by simp
  show ?case
  proof (cases "isspace c")
    case True
    with "2.prems"(1) have c: "c = CHR '' ''" by simp
    from "2.prems"(2) c have nd: "take 2 (CHR '' '' # cs) \<noteq> ''  ''"
      by simp
    have same: "dropWhile isspace cs = cs"
    proof (cases cs)
      case Nil
      then show ?thesis by simp
    next
      case (Cons d ds)
      with nd have "d \<noteq> CHR '' ''" by auto
      with blanks Cons have "\<not> isspace d" by auto
      with Cons show ?thesis by simp
    qed
    have "collapse_spaces cs = cs"
      using "2.IH"(1) [OF True] blanks rest unfolding same by blast
    with True c show ?thesis by (simp add: same)
  next
    case False
    have "collapse_spaces cs = cs"
      using "2.IH"(2) [OF False] blanks rest by blast
    with False show ?thesis by simp
  qed
qed

lemma strip_middle: "\<exists>p q. s = p @ strip s @ q"
proof -
  let ?t = "dropWhile isspace s"
  have "rev (takeWhile isspace (rev ?t) @ dropWhile isspace (rev ?t)) = rev (rev ?t)"
    by (simp only: takeWhile_dropWhile_id)
  then have "rev (dropWhile isspace (rev ?t)) @ rev (takeWhile isspace (rev ?t)) = ?t"
    by (simp only: rev_append rev_rev_ident)
  then have "?t = strip s @ rev (takeWhile isspace (rev ?t))"
    by (simp only: strip_def)
  moreover have "s = takeWhile isspace s @ ?t"
    by simp
  ultimately have "s = takeWhile isspace s @ strip s @ rev (takeWhile isspace (rev ?t))"
    by simp
  then show ?thesis by blast
qed

lemma strip_set: "set (strip s) \<subseteq> set s"
proof -
  obtain p q where "s = p @ strip s @ q" using strip_middle by blast
  then have "set s = set p \<union> set (strip s) \<union> set q" by (metis set_append sup_assoc)
  then show ?thesis by blast
qed

lemma strip_ends:
  assumes "strip s \<noteq> []"
  shows "\<not> isspace (hd (strip s)) \<and> \<not> isspace (last (strip s))"
proof -
  let ?t = "dropWhile isspace s"
  let ?u = "dropWhile isspace (rev ?t)"
  have su: "strip s = rev ?u" by (simp add: strip_def)
  with assms have u: "?u \<noteq> []" by simp
  then have hu: "\<not> isspace (hd ?u)" by (rule hd_dropWhile)
  have t: "?t \<noteq> []"
  proof
    assume "?t = []"
    then have "?u = []" by (simp only: rev.simps dropWhile.simps)
    with u show False ..
  qed
  then have ht: "\<not> isspace (hd ?t)" by (rule hd_dropWhile)
  have "rev ?t = takeWhile isspace (rev ?t) @ ?u" by simp
  with u have "last (rev ?t) = last ?u" by (metis last_appendR)
  with t have "last ?u = hd ?t" by (simp add: last_rev)
  with ht hu su u show ?thesis by (simp add: hd_rev last_rev)
qed

lemma strip_id:
  assumes "s = [] \<or> (\<not> isspace (hd s) \<and> \<not> isspace (last s))"
  shows "strip s = s"
proof (cases "s = []")
  case True
  then show ?thesis by (simp add: strip_def)
next
  case False
  with assms have h: "\<not> isspace (hd s)" and l: "\<not> isspace (last s)" by auto
  from False h have "dropWhile isspace s = s" by (cases s) auto
  moreover from False l have "dropWhile isspace (rev s) = rev s"
    by (cases "rev s") (auto simp: last_rev hd_rev)
  ultimately show ?thesis by (simp add: strip_def)
qed

lemma clean_chars:
  assumes "c \<in> set (clean_text_for_tts x)"
  shows "isalnum c \<or> c = CHR '' ''"
proof (cases "x = []")
  case True
  with assms show ?thesis by (simp add: clean_text_for_tts_def)
next
  case False
  let ?f = "filter (\<lambda>c. is_word c \<or> isspace c) (map dash_to_space x)"
  from False assms have "c \<in> set (strip (collapse_spaces ?f))"
    by (simp add: clean_text_for_tts_def)
  then have "c \<in> set (collapse_spaces ?f)"
    using strip_set by blast
  then have "c = CHR '' '' \<or> (c \<in> set ?f \<and> \<not> isspace c)"
    by (rule collapse_chars)
  then show ?thesis
  proof
    assume "c = CHR '' ''"
    then show ?thesis ..
  next
    assume "c \<in> set ?f \<and> \<not> isspace c"
    then obtain d where "c = dash_to_space d" and "is_word c"
      by auto
    then have "isalnum c" using dash_to_space_range by blast
    then show ?thesis ..
  qed
qed

lemma clean_no_double: "\<not> str_in ''  '' (clean_text_for_tts x)"
proof (cases "x = []")
  case True
  then show ?thesis by (simp add: clean_text_for_tts_def)
next
  case False
  let ?k = "collapse_spaces (filter (\<lambda>c. is_word c \<or> isspace c) (map dash_to_space x))"
  obtain p q where pq: "?k = p @ strip ?k @ q"
    using strip_middle by blast
  show ?thesis
  proof
    assume "str_in ''  '' (clean_text_for_tts x)"
    with False have "str_in ''  '' (strip ?k)"
      by (simp add: clean_text_for_tts_def)
    then obtain p' q' where "strip ?k = p' @ ''  '' @ q'"
      using str_in_iff by blast
    with pq have "?k = (p @ p') @ ''  '' @ (q' @ q)"
      by simp
    then have "str_in ''  '' ?k"
      using str_in_iff by blast
    then show False
      using collapse_no_double by blast
  qed
qed

lemma clean_ends:
  assumes "clean_text_for_tts x \<noteq> []"
  shows "\<not> isspace (hd (clean_text_for_tts x)) \<and> \<not> isspace (last (clean_text_for_tts x))"
proof -
  from assms have "x \<noteq> []" by (auto simp: clean_text_for_tts_def)
  then have eq: "clean_text_for_tts x =
      strip (collapse_spaces (filter (\<lambda>c. is_word c \<or> isspace c) (map dash_to_space x)))"
    by (simp add: clean_text_for_tts_def)
  with assms show ?thesis
    using strip_ends by simp
qed

lemma clean_fixed:
  assumes chars: "\<forall>c\<in>set s. isalnum c \<or> c = CHR '' ''"
    and single: "\<not> str_in ''  '' s"
    and ends: "s \<noteq> [] \<longrightarrow> \<not> isspace (hd s) \<and> \<not> isspace (last s)"
  shows "clean_text_for_tts s = s"
proof (cases "s = []")
  case True
  then show ?thesis by (simp add: clean_text_for_tts_def)
next
  case False
  have m: "map dash_to_space s = s"
    using chars by (simp add: map_idI dash_to_space_id)
  have "\<forall>c\<in>set s. is_word c \<or> isspace c"
    using chars isspace_blank by (auto simp: is_word_def)
  then have f: "filter (\<lambda>c. is_word c \<or> isspace c) s = s"
    by simp
  have "\<forall>c\<in>set s. isspace c \<longrightarrow> c = CHR '' ''"
    using chars alnum_not_space by blast
  then have k: "collapse_spaces s = s"
    using single by (rule collapse_id)
  have "strip s = s"
    using ends by (intro strip_id) blast
  with False m f k show ?thesis
    by (simp add: clean_text_for_tts_def)
qed

subsection \<open>Digits and clock times\<close>

lemma isdigit_digit_char: "d < 10 \<Longrightarrow> isdigit (digit_char d)"
  by (simp add: isdigit_def digit_char_def)

lemma digit_val_digit_char: "d < 10 \<Longrightarrow> digit_val (digit_char d) = d"
  by (simp add: digit_val_def digit_char_def)

lemma str_nat_digits: "\<forall>c\<in>set (str_nat n). isdigit c"
proof (induction n rule: str_nat.induct)
  case (1 n)
  show ?case
  proof (cases "n < 10")
    case True
    then show ?thesis
      by (subst str_nat.simps) (simp add: isdigit_digit_char)
  next
    case False
    with 1 show ?thesis
      by (subst str_nat.simps) (simp add: isdigit_digit_char)
  qed
qed

lemma str_nat_small: "n < 10 \<Longrightarrow> str_nat n = [digit_char n]"
  by (subst str_nat.simps) simp

lemma str_nat_two: "10 \<le> n \<Longrightarrow> n < 100 \<Longrightarrow> str_nat n = [digit_char (n div 10), digit_char (n mod 10)]"
  by (subst str_nat.simps) (simp add: str_nat_small)

lemma digit_char_0: "digit_char 0 = CHR ''0''"
  by code_simp

lemma pad2_two: "n < 100 \<Longrightarrow> pad2 n = [digit_char (n div 10), digit_char (n mod 10)]"
  by (cases "n < 10") (simp_all add: pad2_def str_nat_small str_nat_two digit_char_0)

lemma pad2_digits: "\<forall>c\<in>set (pad2 n). isdigit c"
  using str_nat_digits [of n] by (simp add: pad2_def isdigit_def)

lemma int_of_two_digits:
  "a < 10 \<Longrightarrow> b < 10 \<Longrightarrow> int_of_digits [digit_char a, digit_char b] = 10 * a + b"
  by (simp add: int_of_digits_def digit_val_digit_char)

lemma colon_not_digit: "isdigit c \<Longrightarrow> c \<noteq> CHR '':''"
  by (auto simp: isdigit_def)

lemma blank_not_digit: "isdigit c \<Longrightarrow> c \<noteq> CHR '' ''"
  by (auto simp: isdigit_def)

lemma speech_examples:
  "format_time_for_speech ''09:00 AM'' = ''9''"
  "format_time_for_speech ''12:00 PM'' = ''noon''"
  "format_time_for_speech ''12:30 AM'' = ''0 30''"
  by code_simp+

lemma match_period_AM: "match_period '' AM'' = Some ''AM''"
  by code_simp

lemma match_period_PM: "match_period '' PM'' = Some ''PM''"
  by code_simp

lemma time_match_two:
  assumes "a < 10" "b < 10" "c < 10" "d < 10" "match_period rest = Some p"
  shows "time_match (digit_char a # digit_char b # CHR '':'' # digit_char c # digit_char d # rest)
         = Some (10 * a + b, 10 * c + d, p)"
  using assms
  by (simp add: time_match_def match_with_hour_def isdigit_digit_char int_of_two_digits)

lemma time_match_strftime:
  assumes "hour24 < 24" "minute < 60"
  shows "time_match (strftime_IMp hour24 minute) =
         Some (if hour24 mod 12 = 0 then 12 else hour24 mod 12, minute,
               if hour24 < 12 then ''AM'' else ''PM'')"
proof -
  define h where "h = (if hour24 mod 12 = 0 then 12 else hour24 mod 12)"
  define p where "p = (if hour24 < 12 then ''AM'' else ''PM'')"
  have h: "h < 100" unfolding h_def by presburger
  have hd: "h div 10 < 10" and hm: "h mod 10 < 10" using h by simp_all
  have hv: "10 * (h div 10) + h mod 10 = h" by presburger
  have m: "minute < 100" using assms by simp
  have md: "minute div 10 < 10" and mm: "minute mod 10 < 10" using m by simp_all
  have mv: "10 * (minute div 10) + minute mod 10 = minute" by presburger
  have mp: "match_period (CHR '' '' # p) = Some p"
    unfolding p_def using match_period_AM match_period_PM by simp
  have "strftime_IMp hour24 minute = pad2 h @ '':'' @ pad2 minute @ '' '' @ p"
    by (simp only: strftime_IMp_def h_def p_def)
  then have "strftime_IMp hour24 minute =
        digit_char (h div 10) # digit_char (h mod 10) # CHR '':'' #
        digit_char (minute div 10) # digit_char (minute mod 10) # CHR '' '' # p"
    by (simp add: pad2_two [OF h] pad2_two [OF m])
  then have "time_match (strftime_IMp hour24 minute) =
        Some (10 * (h div 10) + h mod 10, 10 * (minute div 10) + minute mod 10, p)"
    by (simp only: time_match_two [OF hd hm md mm mp])
  then have "time_match (strftime_IMp hour24 minute) = Some (h, minute, p)"
    by (simp only: hv mv)
  then show ?thesis
    by (simp only: h_def p_def)
qed

lemma spoken_24:
  fixes hour24 :: nat
  assumes "hour24 < 24"
  shows "(if (if hour24 < 12 then ''AM'' else ''PM'') = ''PM'' \<and>
             (if hour24 mod 12 = 0 then 12 else hour24 mod 12) \<noteq> 12
          then (if hour24 mod 12 = 0 then 12 else hour24 mod 12) + 12
          else if (if hour24 < 12 then ''AM'' else ''PM'') = ''AM'' \<and>
                  (if hour24 mod 12 = 0 then 12 else hour24 mod 12) = 12
          then 0 else (if hour24 mod 12 = 0 then 12 else hour24 mod 12)) = hour24"
proof -
  consider "hour24 = 0" | "0 < hour24 \<and> hour24 < 12" | "hour24 = 12" | "12 < hour24 \<and> hour24 < 24"
    using assms by linarith
  then show ?thesis
  proof cases
    case 1
    then show ?thesis by simp
  next
    case 2
    then show ?thesis by simp
  next
    case 3
    then show ?thesis by simp
  next
    case 4
    then have "hour24 mod 12 = hour24 - 12"
      by presburger
    with 4 show ?thesis by simp
  qed
qed

lemma match_with_hour_colon:
  assumes "match_with_hour k s = Some r"
  shows "CHR '':'' \<in> set s"
proof -
  from assms obtain c m1 m2 rest where d: "drop k s = c # m1 # m2 # rest" and c: "c = CHR '':''"
    by (auto simp: match_with_hour_def split: if_splits list.splits)
  then have "CHR '':'' \<in> set (drop k s)" by simp
  then show ?thesis by (rule in_set_dropD)
qed

lemma time_match_colon:
  assumes "time_match s = Some r"
  shows "CHR '':'' \<in> set s"
  using assms match_with_hour_colon
  by (auto simp: time_match_def split: option.splits)

lemma str_nat_no_colon: "CHR '':'' \<notin> set (str_nat n)"
  using str_nat_digits colon_not_digit by blast

lemma pad2_no_colon: "CHR '':'' \<notin> set (pad2 n)"
  using pad2_digits colon_not_digit by blast

lemma speech_no_colon:
  assumes "time_match s = Some r"
  shows "CHR '':'' \<notin> set (format_time_for_speech s)"
proof -
  obtain h minute period where r: "r = (h, minute, period)"
    by (cases r)
  show ?thesis
    unfolding format_time_for_speech_def assms r
    by (simp add: Let_def str_nat_no_colon pad2_no_colon)
qed

subsection \<open>Military times inside a text\<close>


















subsection \<open>Occurrences and the free day\<close>

lemma occurrences_absent:
  "a \<noteq> [] \<Longrightarrow> hd a \<notin> set s \<Longrightarrow> occurrences a s = 0"
proof (induction s)
  case Nil
  then show ?case by simp
next
  case (Cons c cs)
  from Cons.prems have "take (length a) (c # cs) \<noteq> a"
    by (cases a) auto
  with Cons show ?case by simp
qed

lemma occurrences_skip:
  "a \<noteq> [] \<Longrightarrow> hd a \<notin> set p \<Longrightarrow> occurrences a (p @ s) = occurrences a s"
proof (induction p)
  case Nil
  then show ?case by simp
next
  case (Cons c cs)
  from Cons.prems have "take (length a) (c # cs @ s) \<noteq> a"
    by (cases a) auto
  with Cons show ?case by simp
qed

lemma occurrences_once:
  assumes "a \<noteq> []" "hd a \<notin> set p" "hd a \<notin> set (tl a @ s)"
  shows "occurrences a (p @ a @ s) = 1"
proof -
  obtain x xs where a: "a = x # xs" using assms(1) by (cases a) auto
  have "occurrences a (a @ s) = 1 + occurrences a (xs @ s)"
    by (simp add: a)
  also have "occurrences a (xs @ s) = 0"
    using assms(1,3) a by (intro occurrences_absent) simp_all
  finally have "occurrences a (a @ s) = 1" by simp
  with assms(1,2) show ?thesis by (simp add: occurrences_skip)
qed

lemma free_day_text:
  "get_ai_day_analysis g current_hour user_name [] None =
   get_time_greeting current_hour @ '' '' @ user_name @ free_day_suggestion"
  by (simp add: get_ai_day_analysis_def day_analysis_body_def falsy_def free_day_suggestion_def)

lemma greeting_cases:
  "get_time_greeting h \<in> {''Good morning'', ''Good afternoon'', ''Good evening'', ''Good night''}"
  by (simp add: get_time_greeting_def)

lemma greeting_once:
  assumes "CHR ''G'' \<notin> set user_name"
  shows "occurrences (get_time_greeting h) (get_time_greeting h @ '' '' @ user_name @ free_day_suggestion) = 1"
proof -
  have sugg: "CHR ''G'' \<notin> set free_day_suggestion"
    by (simp add: free_day_suggestion_def)
  have "get_time_greeting h \<noteq> [] \<and> hd (get_time_greeting h) = CHR ''G'' \<and>
        CHR ''G'' \<notin> set (tl (get_time_greeting h))"
    by (simp add: get_time_greeting_def)
  then have "occurrences (get_time_greeting h)
               ([] @ get_time_greeting h @ ('' '' @ user_name @ free_day_suggestion)) = 1"
    using assms sugg by (intro occurrences_once) simp_all
  then show ?thesis by simp
qed

subsection \<open>Failures inside the briefing\<close>

lemma body_empty_tomorrow:
  "day_analysis_body g h u today (Some []) = day_analysis_body g h u today None"
  by (simp add: day_analysis_body_def falsy_def Let_def split: sum.splits prod.splits)

lemma summary_length:
  "create_meeting_summary u es = Inr ps \<Longrightarrow> length ps = length es"
proof (induction es arbitrary: ps)
  case Nil
  then show ?case by simp
next
  case (Cons e es)
  then show ?case
    by (auto split: sum.splits)
qed

lemma summary_error:
  "create_meeting_summary u es = Inl e \<Longrightarrow> \<exists>key. e = KeyError key"
proof (induction es)
  case Nil
  then show ?case by simp
next
  case (Cons ev es)
  have part: "meeting_part u ev = Inl x \<Longrightarrow> \<exists>key. x = KeyError key" for x
    by (auto simp: meeting_part_def getitem_def split: sum.splits option.splits)
  from Cons show ?case
    by (auto split: sum.splits dest: part)
qed

lemma assemble_error:
  "assemble g intro1 intro ps = Inl e \<Longrightarrow> ps = []"
  by (auto simp: assemble_def split: list.splits prod.splits)

lemma summary_nonempty:
  "create_meeting_summary u es = Inr ps \<Longrightarrow> es \<noteq> [] \<Longrightarrow> ps \<noteq> []"
  using summary_length by fastforce

lemma body_error:
  assumes "day_analysis_body g h u today tomorrow = Inl e"
  shows "\<exists>key. e = KeyError key"
  using assms unfolding day_analysis_body_def Let_def
  by (auto split: if_splits sum.splits option.splits prod.splits
        dest: summary_error assemble_error summary_nonempty)

subsection \<open>The phrase of one event\<close>

lemma meeting_part_mk_event:
  "meeting_part u (mk_event subject st en organizer) = Inr (meeting_phrase u organizer subject st en)"
  by (simp add: meeting_part_def mk_event_def getitem_def)

lemma clean_unknown: "clean_text_for_tts ''Unknown organizer'' = ''Unknown organizer''"
  by code_simp

subsection \<open>Joining the phrases of a day\<close>

lemma transition_in_vocabulary: "fst (get_random_transition g) \<in> set transitions"
proof -
  have "g 0 mod 3 < length transitions" by (simp add: transitions_def)
  then have "transitions ! (g 0 mod 3) \<in> set transitions" by (rule nth_mem)
  then show ?thesis by (simp add: get_random_transition_def)
qed

lemma connect_Cons: "connect (c # cs) (p # ps) = '', '' @ c @ '' '' @ p @ connect cs ps"
  by (simp add: connect_def)

lemma connect_snoc:
  "length cs = length ps \<Longrightarrow>
   connect (cs @ [c]) (ps @ [p]) = connect cs ps @ '', '' @ c @ '' '' @ p"
  by (simp add: connect_def)

lemma finally_no_transition: "''and finally'' \<notin> set transitions"
  by (simp add: transitions_def)

lemma add_middle_connect:
  "\<exists>ts g'. add_middle g result ps = (result @ connect ts ps, g') \<and>
           length ts = length ps \<and> set ts \<subseteq> set transitions"
proof (induction ps arbitrary: g result)
  case Nil
  have "add_middle g result [] = (result @ connect [] [], g) \<and>
        length ([] :: string list) = length ([] :: string list) \<and> set [] \<subseteq> set transitions"
    by (simp add: connect_def)
  then show ?case by blast
next
  case (Cons p ps)
  obtain t g1 where t: "get_random_transition g = (t, g1)"
    by (cases "get_random_transition g")
  then have tv: "t \<in> set transitions"
    using transition_in_vocabulary [of g] by simp
  from Cons [of g1 "result @ '', '' @ t @ '' '' @ p"]
  obtain ts g' where ih: "add_middle g1 (result @ '', '' @ t @ '' '' @ p) ps =
        ((result @ '', '' @ t @ '' '' @ p) @ connect ts ps, g')"
    and len: "length ts = length ps" and sub: "set ts \<subseteq> set transitions"
    by blast
  have "add_middle g result (p # ps) = (result @ connect (t # ts) (p # ps), g')"
    using t ih by (simp add: connect_Cons)
  moreover have "length (t # ts) = length (p # ps)" using len by simp
  moreover have "set (t # ts) \<subseteq> set transitions" using tv sub by simp
  ultimately show ?case by blast
qed

lemma today_briefing_assembled:
  assumes "today \<noteq> []" "create_meeting_summary u today = Inr parts"
  shows "\<exists>g'. assemble g (get_time_greeting h @ '' '' @ u @ ''! You start your day with '')
                (get_time_greeting h @ '' '' @ u @ ''! You start your day with '') parts =
              Inr (get_ai_day_analysis g h u today None, g')"
proof -
  from assms have "parts \<noteq> []" by (rule summary_nonempty [rotated])
  then obtain r g' where a: "assemble g (get_time_greeting h @ '' '' @ u @ ''! You start your day with '')
                (get_time_greeting h @ '' '' @ u @ ''! You start your day with '') parts = Inr (r, g')"
    using assemble_error by (metis old.prod.exhaust sum.exhaust_sel sum.collapse(1))
  with assms have "get_ai_day_analysis g h u today None = r"
    by (simp add: get_ai_day_analysis_def day_analysis_body_def Let_def)
  with a show ?thesis by blast
qed

subsection \<open>When the block fails\<close>

lemma meeting_part_missing:
  "missing_key ev = Some key \<Longrightarrow> meeting_part u ev = Inl (KeyError key)"
  by (auto simp: meeting_part_def getitem_def missing_key_def split: if_splits option.splits)

lemma meeting_part_complete:
  "missing_key ev = None \<Longrightarrow> \<exists>phrase. meeting_part u ev = Inr phrase"
  by (auto simp: meeting_part_def getitem_def missing_key_def split: if_splits option.splits)

lemma summary_missing:
  "first_missing es = Some key \<Longrightarrow> create_meeting_summary u es = Inl (KeyError key)"
proof (induction es)
  case Nil
  then show ?case by simp
next
  case (Cons ev es)
  show ?case
  proof (cases "missing_key ev")
    case None
    then obtain phrase where "meeting_part u ev = Inr phrase"
      using meeting_part_complete by blast
    moreover from None Cons have "create_meeting_summary u es = Inl (KeyError key)"
      by simp
    ultimately show ?thesis by simp
  next
    case (Some k)
    with Cons.prems have "k = key" by simp
    with Some show ?thesis by (simp add: meeting_part_missing)
  qed
qed

lemma summary_complete:
  "first_missing es = None \<Longrightarrow> \<exists>ps. create_meeting_summary u es = Inr ps"
proof (induction es)
  case Nil
  then show ?case by simp
next
  case (Cons ev es)
  from Cons.prems have mk: "missing_key ev = None" and rest: "first_missing es = None"
    by (auto split: option.splits)
  from mk obtain phrase where "meeting_part u ev = Inr phrase"
    using meeting_part_complete by blast
  moreover from rest Cons.IH obtain ps where "create_meeting_summary u es = Inr ps"
    by blast
  ultimately show ?case by simp
qed

lemma first_missing_append:
  "first_missing (xs @ ys) =
     (case first_missing xs of Some key \<Rightarrow> Some key | None \<Rightarrow> first_missing ys)"
  by (induction xs) (auto split: option.splits)

lemma assemble_result:
  "ps \<noteq> [] \<Longrightarrow> \<exists>r g'. assemble g intro1 intro ps = Inr (r, g')"
  using assemble_error by (metis old.prod.exhaust sum.exhaust_sel sum.collapse(1))

lemma body_today:
  assumes "today \<noteq> []"
  shows "day_analysis_body g h u today tomorrow =
    (case create_meeting_summary u today of
       Inl e \<Rightarrow> Inl e
     | Inr meeting_parts \<Rightarrow>
         (case assemble g (get_time_greeting h @ '' '' @ u @ ''! You start your day with '')
                 (get_time_greeting h @ '' '' @ u @ ''! You start your day with '') meeting_parts of
            Inl e \<Rightarrow> Inl e
          | Inr (result, g') \<Rightarrow>
              (case tomorrow of
                 None \<Rightarrow> Inr result
               | Some tomorrow_events \<Rightarrow>
                   if tomorrow_events = [] then Inr result
                   else
                     (case create_meeting_summary u tomorrow_events of
                        Inl e \<Rightarrow> Inl e
                      | Inr tomorrow_parts \<Rightarrow>
                          if tomorrow_parts \<noteq> [] then
                            (case assemble g' '' Tomorrow you have '' '' Tomorrow you start with ''
                                    tomorrow_parts of
                               Inl e \<Rightarrow> Inl e
                             | Inr (tomorrow_text, g'') \<Rightarrow> Inr (result @ tomorrow_text))
                          else Inr (result @ '' Tomorrow is free with no scheduled meetings.'')))))"
  using assms by (simp add: day_analysis_body_def Let_def split: sum.splits)

lemma body_no_today:
  assumes "es \<noteq> []"
  shows "day_analysis_body g h u [] (Some es) =
    (case create_meeting_summary u es of
       Inl e \<Rightarrow> Inl e
     | Inr tomorrow_parts \<Rightarrow>
         if tomorrow_parts \<noteq> [] then
           (case assemble g '' Tomorrow you have '' '' Tomorrow you start with '' tomorrow_parts of
              Inl e \<Rightarrow> Inl e
            | Inr (tomorrow_text, g'') \<Rightarrow>
                Inr ((get_time_greeting h @ '' '' @ u @ ''! You have a free day today.'') @ tomorrow_text))
         else Inr ((get_time_greeting h @ '' '' @ u @ ''! You have a free day today.'') @
                   '' Tomorrow is free with no scheduled meetings.''))"
  using assms by (simp add: day_analysis_body_def Let_def falsy_def split: sum.splits)

lemma tomorrow_missing:
  assumes "first_missing (events_of tomorrow) = Some key"
  obtains es where "tomorrow = Some es" "es \<noteq> []" "create_meeting_summary u es = Inl (KeyError key)"
proof -
  from assms obtain es where t: "tomorrow = Some es"
    by (cases tomorrow) (auto simp: events_of_def)
  with assms have fm: "first_missing es = Some key" by (simp add: events_of_def)
  then have "es \<noteq> []" by auto
  moreover from fm have "create_meeting_summary u es = Inl (KeyError key)"
    by (rule summary_missing)
  ultimately show ?thesis using t that by blast
qed

lemma body_missing:
  assumes "first_missing (today @ events_of tomorrow) = Some key"
  shows "day_analysis_body g h u today tomorrow = Inl (KeyError key)"
proof (cases "today = []")
  case True
  with assms have "first_missing (events_of tomorrow) = Some key" by simp
  then obtain es where "tomorrow = Some es" "es \<noteq> []"
    "create_meeting_summary u es = Inl (KeyError key)"
    by (rule tomorrow_missing)
  with True show ?thesis by (simp add: body_no_today)
next
  case False
  show ?thesis
  proof (cases "first_missing today")
    case (Some k)
    with assms have "k = key" by (simp add: first_missing_append)
    with Some have "create_meeting_summary u today = Inl (KeyError key)"
      by (simp add: summary_missing)
    with False show ?thesis by (simp add: body_today)
  next
    case None
    then obtain ps where ps: "create_meeting_summary u today = Inr ps"
      using summary_complete by blast
    with False have "ps \<noteq> []" using summary_nonempty by blast
    then obtain r g' where a: "assemble g (get_time_greeting h @ '' '' @ u @ ''! You start your day with '')
        (get_time_greeting h @ '' '' @ u @ ''! You start your day with '') ps = Inr (r, g')"
      using assemble_result by blast
    from None assms have "first_missing (events_of tomorrow) = Some key"
      by (simp add: first_missing_append)
    then obtain es where "tomorrow = Some es" "es \<noteq> []"
      "create_meeting_summary u es = Inl (KeyError key)"
      by (rule tomorrow_missing)
    with False ps a show ?thesis by (simp add: body_today)
  qed
qed

lemma body_complete:
  assumes "first_missing (today @ events_of tomorrow) = None"
  shows "\<exists>result. day_analysis_body g h u today tomorrow = Inr result"
proof (cases "day_analysis_body g h u today tomorrow")
  case (Inr result)
  then show ?thesis by blast
next
  case (Inl e)
  then obtain key where e: "e = KeyError key"
    using body_error by blast
  have today: "first_missing today = None" and tom: "first_missing (events_of tomorrow) = None"
    using assms by (auto simp: first_missing_append split: option.splits)
  obtain ps where ps: "create_meeting_summary u today = Inr ps"
    using today summary_complete by blast
  have tps: "\<exists>tp. create_meeting_summary u es = Inr tp" if "tomorrow = Some es" for es
    using tom that summary_complete by (simp add: events_of_def)
  from Inl ps tps have False
    unfolding day_analysis_body_def Let_def
    by (auto split: if_splits sum.splits option.splits prod.splits
          dest: assemble_error summary_nonempty)
  then show ?thesis ..
qed

lemma call_named:
  "get_ai_day_analysis_call None (Inr u) g h today tomorrow =
   (case day_analysis_body g h u today tomorrow of
      Inr result \<Rightarrow> Inr result
    | Inl e \<Rightarrow>
        if is_Exception e
        then Inr (''Sorry, I couldn't create your day summary due to an error: '' @ str_error e)
        else Inl e)"
  by (simp add: get_ai_day_analysis_call_def)

subsection \<open>The end-to-end scenario\<close>

text \<open>
  C1. Today holds Standup (09:00 AM to 09:15 AM, organizer Alice) and Review (02:00 PM to
  03:00 PM, organizer Bob), tomorrow is absent, the user is Sam and the hour is 8.
  Whatever the random generator draws, the briefing is "Good morning Sam! You start your
  day with Standup from 9 to 9 15 with Alice, t Review from 2 to 3 with Bob." for a
  transition t of the vocabulary; the briefing is that whole string, so it starts with it.
\<close>

theorem scenario_standup_review:
  "\<exists>t. t \<in> set transitions \<and>
     get_ai_day_analysis g 8 ''Sam''
       [mk_event ''Standup'' ''09:00 AM'' ''09:15 AM'' ''Alice'',
        mk_event ''Review'' ''02:00 PM'' ''03:00 PM'' ''Bob''] None =
     ''Good morning Sam! You start your day with Standup from 9 to 9 15 with Alice, '' @ t @
     '' Review from 2 to 3 with Bob.''"
proof -
  have parts:
    "create_meeting_summary ''Sam''
       [mk_event ''Standup'' ''09:00 AM'' ''09:15 AM'' ''Alice'',
        mk_event ''Review'' ''02:00 PM'' ''03:00 PM'' ''Bob''] =
     Inr [''Standup from 9 to 9 15 with Alice'', ''Review from 2 to 3 with Bob'']"
    by code_simp
  have greet: "get_time_greeting 8 = ''Good morning''"
    by (simp add: get_time_greeting_def)
  obtain t g' where t: "get_random_transition g = (t, g')"
    by (cases "get_random_transition g")
  from t have "t \<in> set transitions"
    using transition_in_vocabulary [of g] by simp
  moreover have
    "get_ai_day_analysis g 8 ''Sam''
       [mk_event ''Standup'' ''09:00 AM'' ''09:15 AM'' ''Alice'',
        mk_event ''Review'' ''02:00 PM'' ''03:00 PM'' ''Bob''] None =
     ''Good morning Sam! You start your day with Standup from 9 to 9 15 with Alice, '' @ t @
     '' Review from 2 to 3 with Bob.''"
    by (simp add: get_ai_day_analysis_def day_analysis_body_def parts greet assemble_def t
          del: create_meeting_summary.simps)
  ultimately show ?thesis by blast
qed

subsection \<open>The normalizer\<close>

text \<open>
  C8. For every text \<open>x\<close>, the normalized text holds only alphanumeric characters and
  blanks, never two blanks in a row, and no whitespace at either end; normalizing it
  again changes nothing; the empty text and \<open>None\<close> come back as they are.
\<close>

theorem normalize_shape_idempotent:
  "(\<forall>c\<in>set (clean_text_for_tts x). isalnum c \<or> c = CHR '' '') \<and>
   \<not> str_in ''  '' (clean_text_for_tts x) \<and>
   (clean_text_for_tts x \<noteq> [] \<longrightarrow>
      \<not> isspace (hd (clean_text_for_tts x)) \<and> \<not> isspace (last (clean_text_for_tts x))) \<and>
   clean_text_for_tts (clean_text_for_tts x) = clean_text_for_tts x \<and>
   clean_text_for_tts [] = [] \<and>
   clean_text_for_tts_opt None = None"
proof -
  have chars: "\<forall>c\<in>set (clean_text_for_tts x). isalnum c \<or> c = CHR '' ''"
    using clean_chars by blast
  have ends: "clean_text_for_tts x \<noteq> [] \<longrightarrow>
      \<not> isspace (hd (clean_text_for_tts x)) \<and> \<not> isspace (last (clean_text_for_tts x))"
    using clean_ends by blast
  have idem: "clean_text_for_tts (clean_text_for_tts x) = clean_text_for_tts x"
    using chars clean_no_double ends by (rule clean_fixed)
  have empty: "clean_text_for_tts [] = []"
    by (simp add: clean_text_for_tts_def)
  have none: "clean_text_for_tts_opt None = None"
    by (simp add: clean_text_for_tts_opt_def)
  from chars clean_no_double ends idem empty none show ?thesis
    by blast
qed

theorem normalize_shape_idempotent_witness:
  "clean_text_for_tts ''  Q3 plan -- a_b (v2)! '' = ''Q3 plan a b v2'' \<and>
   list_all (\<lambda>c. isalnum c \<or> c = CHR '' '') ''Q3 plan a b v2'' \<and>
   ''Q3 plan a b v2'' \<noteq> [] \<and>
   \<not> isspace (hd ''Q3 plan a b v2'') \<and> \<not> isspace (last ''Q3 plan a b v2'') \<and>
   clean_text_for_tts ''Q3 plan a b v2'' = ''Q3 plan a b v2''"
proof -
  have v: "clean_text_for_tts ''  Q3 plan -- a_b (v2)! '' = ''Q3 plan a b v2''"
    by code_simp
  have ne: "''Q3 plan a b v2'' \<noteq> []"
    by simp
  from normalize_shape_idempotent [of "''  Q3 plan -- a_b (v2)! ''"]
  have "(\<forall>c\<in>set ''Q3 plan a b v2''. isalnum c \<or> c = CHR '' '') \<and>
        (''Q3 plan a b v2'' \<noteq> [] \<longrightarrow>
           \<not> isspace (hd ''Q3 plan a b v2'') \<and> \<not> isspace (last ''Q3 plan a b v2'')) \<and>
        clean_text_for_tts ''Q3 plan a b v2'' = ''Q3 plan a b v2''"
    unfolding v by blast
  with v ne show ?thesis
    by (simp only: list_all_iff) blast
qed

subsection \<open>Clock times\<close>

text \<open>
  C5, as the code has it. A clock time written as hh:mm AM/PM is spoken as "midnight" at
  12:00 AM, as "noon" at 12:00 PM, as the bare hour of the 12-hour clock when the minutes
  are 0, and otherwise as the hour followed by the minutes padded to two digits, with
  no AM or PM; the hour after midnight, 12:01 AM to 12:59 AM, is spoken as 0. So
  "09:00 AM" gives "9", "12:00 PM" gives "noon" and "12:30 AM" gives "0 30".
\<close>

theorem humanize_clock_time:
  "(hour24 < 24 \<and> minute < 60 \<longrightarrow>
     format_time_for_speech (strftime_IMp hour24 minute) =
       (if minute = 0 then
          (if hour24 = 0 then ''midnight''
           else if hour24 = 12 then ''noon''
           else str_nat (if hour24 > 12 then hour24 - 12 else hour24))
        else str_nat (if hour24 > 12 then hour24 - 12 else hour24) @ '' '' @ pad2 minute)) \<and>
   format_time_for_speech ''09:00 AM'' = ''9'' \<and>
   format_time_for_speech ''12:00 PM'' = ''noon'' \<and>
   format_time_for_speech ''12:30 AM'' = ''0 30''"
proof -
  have general: "hour24 < 24 \<and> minute < 60 \<longrightarrow>
     format_time_for_speech (strftime_IMp hour24 minute) =
       (if minute = 0 then
          (if hour24 = 0 then ''midnight''
           else if hour24 = 12 then ''noon''
           else str_nat (if hour24 > 12 then hour24 - 12 else hour24))
        else str_nat (if hour24 > 12 then hour24 - 12 else hour24) @ '' '' @ pad2 minute)"
  proof
    assume a: "hour24 < 24 \<and> minute < 60"
    then have tm: "time_match (strftime_IMp hour24 minute) =
           Some (if hour24 mod 12 = 0 then 12 else hour24 mod 12, minute,
                 if hour24 < 12 then ''AM'' else ''PM'')"
      using time_match_strftime by blast
    from a have sp: "(if (if hour24 < 12 then ''AM'' else ''PM'') = ''PM'' \<and>
               (if hour24 mod 12 = 0 then 12 else hour24 mod 12) \<noteq> 12
            then (if hour24 mod 12 = 0 then 12 else hour24 mod 12) + 12
            else if (if hour24 < 12 then ''AM'' else ''PM'') = ''AM'' \<and>
                    (if hour24 mod 12 = 0 then 12 else hour24 mod 12) = 12
            then 0 else (if hour24 mod 12 = 0 then 12 else hour24 mod 12)) = hour24"
      using spoken_24 by blast
    have "format_time_for_speech (strftime_IMp hour24 minute) =
         (if minute = 0 then
            (if hour24 = 0 then ''midnight''
             else if hour24 = 12 then ''noon''
             else if hour24 > 12 then str_nat (hour24 - 12)
             else str_nat hour24)
          else
            (if hour24 > 12 then str_nat (hour24 - 12) @ '' '' @ pad2 minute
             else str_nat hour24 @ '' '' @ pad2 minute))"
      by (simp only: format_time_for_speech_def tm option.case prod.case Let_def sp)
    then show "format_time_for_speech (strftime_IMp hour24 minute) =
         (if minute = 0 then
            (if hour24 = 0 then ''midnight''
             else if hour24 = 12 then ''noon''
             else str_nat (if hour24 > 12 then hour24 - 12 else hour24))
          else str_nat (if hour24 > 12 then hour24 - 12 else hour24) @ '' '' @ pad2 minute)"
      by simp
  qed
  from general speech_examples show ?thesis
    by blast
qed

theorem humanize_clock_time_witness:
  "(13::nat) < 24 \<and> (5::nat) < 60 \<and> format_time_for_speech (strftime_IMp 13 5) = ''1 05''"
proof -
  have v: "str_nat 1 @ '' '' @ pad2 5 = ''1 05''"
    by code_simp
  show ?thesis
    using humanize_clock_time [of 13 5] v by simp
qed

text \<open>The claim as written asks for "midnight 30" at half past midnight; the code
  says "0 30".\<close>

theorem humanize_half_past_midnight_counterexample:
  "format_time_for_speech ''12:30 AM'' \<noteq> ''midnight 30''"
  by code_simp

text \<open>
  C10. Humanizing a clock time twice is the same as humanizing it once, for every
  string: a string the pattern does not match is returned as it is, and a string it
  matches becomes a phrase without a colon, which the pattern cannot match again.
\<close>

theorem humanize_idempotent:
  "format_time_for_speech (format_time_for_speech s) = format_time_for_speech s \<and>
   (time_match s = None \<longrightarrow> format_time_for_speech s = s) \<and>
   (time_match s \<noteq> None \<longrightarrow> CHR '':'' \<notin> set (format_time_for_speech s))"
proof -
  have unmatched: "time_match t = None \<Longrightarrow> format_time_for_speech t = t" for t
    by (simp add: format_time_for_speech_def)
  have matched: "time_match s \<noteq> None \<longrightarrow> CHR '':'' \<notin> set (format_time_for_speech s)"
    using speech_no_colon by blast
  have "format_time_for_speech (format_time_for_speech s) = format_time_for_speech s"
  proof (cases "time_match s")
    case None
    then show ?thesis by (simp add: unmatched)
  next
    case (Some r)
    then have "CHR '':'' \<notin> set (format_time_for_speech s)"
      by (rule speech_no_colon)
    then have "time_match (format_time_for_speech s) = None"
      using time_match_colon by (cases "time_match (format_time_for_speech s)") auto
    then show ?thesis by (rule unmatched)
  qed
  with unmatched matched show ?thesis by blast
qed

theorem humanize_idempotent_witness:
  "time_match ''lunchtime'' = None \<and> format_time_for_speech ''lunchtime'' = ''lunchtime'' \<and>
   time_match ''11:45 PM'' \<noteq> None \<and> CHR '':'' \<notin> set (format_time_for_speech ''11:45 PM'') \<and>
   format_time_for_speech (format_time_for_speech ''11:45 PM'') = format_time_for_speech ''11:45 PM''"
proof -
  have a: "time_match ''lunchtime'' = None"
    by code_simp
  have b: "time_match ''11:45 PM'' \<noteq> None"
    by code_simp
  show ?thesis
    using humanize_idempotent [of "''lunchtime''"] humanize_idempotent [of "''11:45 PM''"] a b
    by blast
qed

subsection \<open>Military times\<close>




subsection \<open>The free day\<close>

text \<open>
  C9, as the code has it. With no event today and tomorrow absent, the briefing is the
  greeting of the hour, a blank, the user name and the fixed text that suggests catching
  up or taking a break. The greeting stands there once and the name once; as substrings
  they are counted once when nothing else in the sentence can begin them: the greeting
  when the name has no capital G, the name when its first character occurs nowhere else
  in the sentence.
\<close>

theorem free_day_sentence:
  "get_ai_day_analysis g current_hour user_name [] None =
     get_time_greeting current_hour @ '' '' @ user_name @ free_day_suggestion \<and>
   get_time_greeting current_hour \<in>
     {''Good morning'', ''Good afternoon'', ''Good evening'', ''Good night''} \<and>
   (CHR ''G'' \<notin> set user_name \<longrightarrow>
      occurrences (get_time_greeting current_hour)
        (get_ai_day_analysis g current_hour user_name [] None) = 1) \<and>
   (user_name \<noteq> [] \<and>
    hd user_name \<notin> set (get_time_greeting current_hour @ '' '' @ tl user_name @ free_day_suggestion) \<longrightarrow>
      occurrences user_name (get_ai_day_analysis g current_hour user_name [] None) = 1)"
proof -
  have name_once: "occurrences user_name (get_ai_day_analysis g current_hour user_name [] None) = 1"
    if a: "user_name \<noteq> []"
      "hd user_name \<notin> set (get_time_greeting current_hour @ '' '' @ tl user_name @ free_day_suggestion)"
  proof -
    have "occurrences user_name
            ((get_time_greeting current_hour @ '' '') @ user_name @ free_day_suggestion) = 1"
      using a by (intro occurrences_once) simp_all
    then show ?thesis by (simp add: free_day_text)
  qed
  from free_day_text greeting_cases greeting_once name_once show ?thesis
    by (simp only: simp_thms) blast
qed

theorem free_day_sentence_witness:
  "CHR ''G'' \<notin> set ''Sam'' \<and> ''Sam'' \<noteq> [] \<and>
   hd ''Sam'' \<notin> set (get_time_greeting 8 @ '' '' @ tl ''Sam'' @ free_day_suggestion) \<and>
   occurrences (get_time_greeting 8) (get_ai_day_analysis (\<lambda>i. 0) 8 ''Sam'' [] None) = 1 \<and>
   occurrences ''Sam'' (get_ai_day_analysis (\<lambda>i. 0) 8 ''Sam'' [] None) = 1"
proof -
  have h: "CHR ''G'' \<notin> set ''Sam''" "''Sam'' \<noteq> []"
    "hd ''Sam'' \<notin> set (get_time_greeting 8 @ '' '' @ tl ''Sam'' @ free_day_suggestion)"
    by code_simp+
  with free_day_sentence [of "\<lambda>i. 0" 8 "''Sam''"] show ?thesis
    by blast
qed

text \<open>Counted as a substring, a name can occur more often: the name "a" occurs in
  "have", "a", "day" and further on.\<close>

theorem free_day_name_once_counterexample:
  "occurrences ''a'' (get_ai_day_analysis (\<lambda>i. 0) 8 ''a'' [] None) \<noteq> 1"
  by code_simp

subsection \<open>Tomorrow absent or empty\<close>

text \<open>
  C3. The claim asks for the sentence "Tomorrow is free with no scheduled meetings." when
  tomorrow's list is present and empty. The code tests the list for truth at line 593,
  so an empty list takes the same path as an absent one: for every today list the two
  briefings are equal, and with Standup today and an empty list for tomorrow the
  briefing ends after today's sentence.
\<close>

theorem tomorrow_empty_same_as_absent:
  "get_ai_day_analysis g h u today (Some []) = get_ai_day_analysis g h u today None \<and>
   get_ai_day_analysis g 8 ''Sam'' [mk_event ''Standup'' ''09:00 AM'' ''09:15 AM'' ''Alice''] (Some []) =
     ''Good morning Sam! You start your day with Standup from 9 to 9 15 with Alice.''"
proof -
  have parts:
    "create_meeting_summary ''Sam'' [mk_event ''Standup'' ''09:00 AM'' ''09:15 AM'' ''Alice''] =
     Inr [''Standup from 9 to 9 15 with Alice'']"
    by code_simp
  have greet: "get_time_greeting 8 = ''Good morning''"
    by (simp add: get_time_greeting_def)
  have "get_ai_day_analysis g 8 ''Sam'' [mk_event ''Standup'' ''09:00 AM'' ''09:15 AM'' ''Alice''] (Some []) =
     ''Good morning Sam! You start your day with Standup from 9 to 9 15 with Alice.''"
    by (simp add: get_ai_day_analysis_def day_analysis_body_def parts greet assemble_def
          del: create_meeting_summary.simps)
  then show ?thesis
    by (simp add: get_ai_day_analysis_def body_empty_tomorrow)
qed

subsection \<open>Exceptions and the briefing\<close>

text \<open>
  C7, as the code has it. Once line 499 has printed its progress line, the call returns
  a string whenever \<open>get_user_name\<close> returns a name or raises an instance of
  \<open>Exception\<close>. When every event read has the keys organizer, subject, start_time and
  end_time, that string is the narrative. When an event lacks one, it is the apology
  "Sorry, I couldn't create your day summary due to an error: " followed by the first
  missing key in single quotes; when \<open>get_user_name\<close> raises an instance of
  \<open>Exception\<close>, it is the apology followed by the text of that exception, "EOF when
  reading a line" at the end of the input. With no data at all it is the free-day
  sentence.
\<close>

theorem compose_catches_exceptions:
  "(first_missing (today @ events_of tomorrow) = None \<longrightarrow>
      (\<exists>result. day_analysis_body g h u today tomorrow = Inr result \<and>
         get_ai_day_analysis_call None (Inr u) g h today tomorrow = Inr result)) \<and>
   (first_missing (today @ events_of tomorrow) = Some key \<longrightarrow>
      get_ai_day_analysis_call None (Inr u) g h today tomorrow =
        Inr (''Sorry, I couldn't create your day summary due to an error: '' @
             [CHR 0x27] @ key @ [CHR 0x27])) \<and>
   (is_Exception e \<longrightarrow>
      get_ai_day_analysis_call None (Inl e) g h today tomorrow =
        Inr (''Sorry, I couldn't create your day summary due to an error: '' @ str_error e)) \<and>
   get_ai_day_analysis_call None (Inl EOFError) g h today tomorrow =
     Inr ''Sorry, I couldn't create your day summary due to an error: EOF when reading a line'' \<and>
   get_ai_day_analysis_call None (Inr u) g h today tomorrow =
     Inr (get_ai_day_analysis g h u today tomorrow) \<and>
   get_ai_day_analysis_call None (Inr u) g h [] None =
     Inr (get_time_greeting h @ '' '' @ u @ free_day_suggestion)"
proof -
  have complete: "first_missing (today @ events_of tomorrow) = None \<longrightarrow>
      (\<exists>result. day_analysis_body g h u today tomorrow = Inr result \<and>
         get_ai_day_analysis_call None (Inr u) g h today tomorrow = Inr result)"
  proof
    assume "first_missing (today @ events_of tomorrow) = None"
    then obtain result where r: "day_analysis_body g h u today tomorrow = Inr result"
      using body_complete by blast
    then have "get_ai_day_analysis_call None (Inr u) g h today tomorrow = Inr result"
      by (simp add: call_named)
    with r show "\<exists>result. day_analysis_body g h u today tomorrow = Inr result \<and>
         get_ai_day_analysis_call None (Inr u) g h today tomorrow = Inr result"
      by blast
  qed
  have missing: "first_missing (today @ events_of tomorrow) = Some key \<longrightarrow>
      get_ai_day_analysis_call None (Inr u) g h today tomorrow =
        Inr (''Sorry, I couldn't create your day summary due to an error: '' @
             [CHR 0x27] @ key @ [CHR 0x27])"
  proof
    assume "first_missing (today @ events_of tomorrow) = Some key"
    then have "day_analysis_body g h u today tomorrow = Inl (KeyError key)"
      by (rule body_missing)
    then show "get_ai_day_analysis_call None (Inr u) g h today tomorrow =
        Inr (''Sorry, I couldn't create your day summary due to an error: '' @
             [CHR 0x27] @ key @ [CHR 0x27])"
      by (simp add: call_named is_Exception_def str_error_def)
  qed
  have caught: "is_Exception e \<longrightarrow>
      get_ai_day_analysis_call None (Inl e) g h today tomorrow =
        Inr (''Sorry, I couldn't create your day summary due to an error: '' @ str_error e)"
    by (simp add: get_ai_day_analysis_call_def)
  have eof: "get_ai_day_analysis_call None (Inl EOFError) g h today tomorrow =
     Inr ''Sorry, I couldn't create your day summary due to an error: EOF when reading a line''"
    by (simp add: get_ai_day_analysis_call_def is_Exception_def str_error_def)
  have string: "get_ai_day_analysis_call None (Inr u) g h today tomorrow =
     Inr (get_ai_day_analysis g h u today tomorrow)"
  proof (cases "day_analysis_body g h u today tomorrow")
    case (Inl x)
    then obtain k where "x = KeyError k" using body_error by blast
    with Inl show ?thesis
      by (simp add: call_named get_ai_day_analysis_def is_Exception_def)
  next
    case (Inr r)
    then show ?thesis
      by (simp add: call_named get_ai_day_analysis_def)
  qed
  have "get_ai_day_analysis_call None (Inr u) g h [] None = Inr (get_ai_day_analysis g h u [] None)"
  proof (cases "day_analysis_body g h u [] None")
    case (Inl x)
    then obtain k where "x = KeyError k" using body_error by blast
    with Inl show ?thesis
      by (simp add: call_named get_ai_day_analysis_def is_Exception_def)
  next
    case (Inr r)
    then show ?thesis
      by (simp add: call_named get_ai_day_analysis_def)
  qed
  then have free: "get_ai_day_analysis_call None (Inr u) g h [] None =
     Inr (get_time_greeting h @ '' '' @ u @ free_day_suggestion)"
    by (simp only: free_day_text)
  from complete missing caught eof string free show ?thesis
    by blast
qed

theorem compose_catches_exceptions_witness:
  "first_missing ([mk_event ''Standup'' ''09:00 AM'' ''09:15 AM'' ''Alice''] @ events_of None) = None \<and>
   get_ai_day_analysis_call None (Inr ''Sam'') (\<lambda>i. 0) 8
       [mk_event ''Standup'' ''09:00 AM'' ''09:15 AM'' ''Alice''] None =
     Inr ''Good morning Sam! You start your day with Standup from 9 to 9 15 with Alice.'' \<and>
   first_missing ([[''subject'' \<mapsto> ''Standup'']] @ events_of None) = Some ''organizer'' \<and>
   get_ai_day_analysis_call None (Inr ''Sam'') (\<lambda>i. 0) 8 [[''subject'' \<mapsto> ''Standup'']] None =
     Inr (''Sorry, I couldn't create your day summary due to an error: '' @
          [CHR 0x27] @ ''organizer'' @ [CHR 0x27]) \<and>
   is_Exception (UnicodeEncodeError ''codec cannot encode character'') \<and>
   get_ai_day_analysis_call None (Inl (UnicodeEncodeError ''codec cannot encode character''))
       (\<lambda>i. 0) 8 [] None =
     Inr ''Sorry, I couldn't create your day summary due to an error: codec cannot encode character''"
proof -
  have h1: "first_missing ([mk_event ''Standup'' ''09:00 AM'' ''09:15 AM'' ''Alice''] @ events_of None) = None"
    by (simp add: events_of_def missing_key_def mk_event_def)
  have b1: "day_analysis_body (\<lambda>i. 0) 8 ''Sam''
       [mk_event ''Standup'' ''09:00 AM'' ''09:15 AM'' ''Alice''] None =
     Inr ''Good morning Sam! You start your day with Standup from 9 to 9 15 with Alice.''"
    by code_simp
  have h2: "first_missing ([[''subject'' \<mapsto> ''Standup'']] @ events_of None) = Some ''organizer''"
    by (simp add: events_of_def missing_key_def)
  have h3: "is_Exception (UnicodeEncodeError ''codec cannot encode character'')"
    by (simp add: is_Exception_def)
  have s3: "str_error (UnicodeEncodeError ''codec cannot encode character'') =
            ''codec cannot encode character''"
    by (simp add: str_error_def)
  from compose_catches_exceptions
    [of "[mk_event ''Standup'' ''09:00 AM'' ''09:15 AM'' ''Alice'']" None "\<lambda>i. 0" 8 "''Sam''"] h1 b1
  have r1: "get_ai_day_analysis_call None (Inr ''Sam'') (\<lambda>i. 0) 8
       [mk_event ''Standup'' ''09:00 AM'' ''09:15 AM'' ''Alice''] None =
     Inr ''Good morning Sam! You start your day with Standup from 9 to 9 15 with Alice.''"
    by auto
  from compose_catches_exceptions
    [of "[[''subject'' \<mapsto> ''Standup'']]" None "\<lambda>i. 0" 8 "''Sam''" "''organizer''"] h2
  have r2: "get_ai_day_analysis_call None (Inr ''Sam'') (\<lambda>i. 0) 8 [[''subject'' \<mapsto> ''Standup'']] None =
     Inr (''Sorry, I couldn't create your day summary due to an error: '' @
          [CHR 0x27] @ ''organizer'' @ [CHR 0x27])"
    by blast
  from compose_catches_exceptions
    [of _ _ "\<lambda>i. 0" 8 _ _ "UnicodeEncodeError ''codec cannot encode character''"] h3 s3
  have r3: "get_ai_day_analysis_call None (Inl (UnicodeEncodeError ''codec cannot encode character''))
       (\<lambda>i. 0) 8 [] None =
     Inr ''Sorry, I couldn't create your day summary due to an error: codec cannot encode character''"
    by simp
  from h1 r1 h2 r2 h3 r3 show ?thesis
    by blast
qed

text \<open>A \<open>KeyboardInterrupt\<close> at the prompt for the name is no instance of
  \<open>Exception\<close>: the handler of line 613 lets it pass, and the caller receives it.\<close>

theorem compose_keyboard_interrupt_counterexample:
  "get_ai_day_analysis_call None (Inl KeyboardInterrupt) (\<lambda>i. 0) 8 [] None = Inl KeyboardInterrupt"
  by (simp add: get_ai_day_analysis_call_def is_Exception_def)

subsection \<open>The organizer suffix\<close>

text \<open>
  C6, as the code has it. For an event with an organizer, the phrase ends without
  " with organizer" exactly when the user name is not empty and, letter case aside, occurs
  in the organizer; otherwise the suffix follows, with the organizer normalized. For an
  event without organizer the suffix is " with Unknown organizer" whenever the user name
  is empty or does not occur, letter case aside, in "Unknown organizer".
\<close>

theorem organizer_suffix:
  "(organizer \<noteq> [] \<longrightarrow>
      meeting_part u (mk_event subject st en organizer) =
        Inr (fix_24h_times_for_tts (clean_text_for_tts subject) @ '' from '' @
             format_time_for_speech st @ '' to '' @ format_time_for_speech en @
             (if u \<noteq> [] \<and> str_in (lower u) (lower organizer) then []
              else '' with '' @ clean_text_for_tts organizer))) \<and>
   (organizer = [] \<and> (u = [] \<or> \<not> str_in (lower u) (lower ''Unknown organizer'')) \<longrightarrow>
      meeting_part u (mk_event subject st en organizer) =
        Inr (fix_24h_times_for_tts (clean_text_for_tts subject) @ '' from '' @
             format_time_for_speech st @ '' to '' @ format_time_for_speech en @
             '' with Unknown organizer''))"
proof -
  have named: "organizer \<noteq> [] \<longrightarrow>
      meeting_phrase u organizer subject st en =
        fix_24h_times_for_tts (clean_text_for_tts subject) @ '' from '' @
        format_time_for_speech st @ '' to '' @ format_time_for_speech en @
        (if u \<noteq> [] \<and> str_in (lower u) (lower organizer) then []
         else '' with '' @ clean_text_for_tts organizer)"
    by (simp add: meeting_phrase_def Let_def)
  have unnamed: "organizer = [] \<and> (u = [] \<or> \<not> str_in (lower u) (lower ''Unknown organizer'')) \<longrightarrow>
      meeting_phrase u organizer subject st en =
        fix_24h_times_for_tts (clean_text_for_tts subject) @ '' from '' @
        format_time_for_speech st @ '' to '' @ format_time_for_speech en @
        '' with Unknown organizer''"
    using clean_unknown by (auto simp add: meeting_phrase_def Let_def simp del: str_in.simps)
  from named unnamed show ?thesis
    by (simp only: meeting_part_mk_event) blast
qed

theorem organizer_suffix_witness:
  "''Sam Smith'' \<noteq> [] \<and> ''Alice'' \<noteq> [] \<and>
   meeting_part ''sam'' (mk_event ''Review'' ''02:00 PM'' ''03:00 PM'' ''Sam Smith'') =
     Inr ''Review from 2 to 3'' \<and>
   meeting_part ''Sam'' (mk_event ''Review'' ''02:00 PM'' ''03:00 PM'' ''Alice'') =
     Inr ''Review from 2 to 3 with Alice'' \<and>
   \<not> str_in (lower ''Sam'') (lower ''Unknown organizer'') \<and>
   meeting_part ''Sam'' (mk_event ''Review'' ''02:00 PM'' ''03:00 PM'' []) =
     Inr ''Review from 2 to 3 with Unknown organizer''"
proof -
  have base: "fix_24h_times_for_tts (clean_text_for_tts ''Review'') @ '' from '' @
      format_time_for_speech ''02:00 PM'' @ '' to '' @ format_time_for_speech ''03:00 PM'' =
      ''Review from 2 to 3''"
    by code_simp
  have s1: "str_in (lower ''sam'') (lower ''Sam Smith'')"
    by code_simp
  have s2: "\<not> str_in (lower ''Sam'') (lower ''Alice'')"
    by code_simp
  have s3: "\<not> str_in (lower ''Sam'') (lower ''Unknown organizer'')"
    by code_simp
  have c2: "clean_text_for_tts ''Alice'' = ''Alice''"
    by code_simp
  have r1: "meeting_part ''sam'' (mk_event ''Review'' ''02:00 PM'' ''03:00 PM'' ''Sam Smith'') =
     Inr ''Review from 2 to 3''"
    using organizer_suffix [of "''Sam Smith''" "''sam''" "''Review''" "''02:00 PM''" "''03:00 PM''"]
      base s1 by (simp del: str_in.simps)
  have r2: "meeting_part ''Sam'' (mk_event ''Review'' ''02:00 PM'' ''03:00 PM'' ''Alice'') =
     Inr ''Review from 2 to 3 with Alice''"
    using organizer_suffix [of "''Alice''" "''Sam''" "''Review''" "''02:00 PM''" "''03:00 PM''"]
      base s2 c2 by (simp del: str_in.simps)
  have r3: "meeting_part ''Sam'' (mk_event ''Review'' ''02:00 PM'' ''03:00 PM'' []) =
     Inr ''Review from 2 to 3 with Unknown organizer''"
    using organizer_suffix [of "[]" "''Sam''" "''Review''" "''02:00 PM''" "''03:00 PM''"]
      base s3 by (simp del: str_in.simps)
  from r1 r2 r3 s3 show ?thesis by simp
qed

text \<open>The empty user name is a substring of every organizer, and still the suffix is
  there: line 561 asks for a user name that is not empty.\<close>

theorem organizer_suffix_empty_name_counterexample:
  "str_in (lower []) (lower ''Alice'') \<and>
   meeting_part [] (mk_event ''Standup'' ''09:00 AM'' ''09:15 AM'' ''Alice'') =
     Inr ''Standup from 9 to 9 15 with Alice''"
  by code_simp

subsection \<open>The narrative of one day\<close>

text \<open>
  C2. For N phrases, N at least 1, the narrative is the introduction, the first phrase,
  then every further phrase in the order received, each joined by one connective, and a
  full stop: N - 1 connectives in all. Every connective but the last is a transition of
  the vocabulary; the last one is "and finally" exactly when N is at least 3, and for N = 2
  the one connective is a transition of the vocabulary. \<open>today_briefing_assembled\<close>
  above says that today's part of the briefing is this narrative.
\<close>

theorem narrative_connectives:
  "parts \<noteq> [] \<longrightarrow>
     (\<exists>cs g'. assemble g intro1 intro parts =
                Inr ((if length parts = 1 then intro1 else intro) @ hd parts @
                     connect cs (tl parts) @ ''.'', g') \<and>
              length cs = length parts - 1 \<and>
              (\<forall>c\<in>set (butlast cs). c \<in> set transitions) \<and>
              (2 \<le> length parts \<longrightarrow> (last cs = ''and finally'' \<longleftrightarrow> 3 \<le> length parts)) \<and>
              (length parts = 2 \<longrightarrow> last cs \<in> set transitions))"
proof
  assume ne: "parts \<noteq> []"
  let ?goal = "\<lambda>cs g'. assemble g intro1 intro parts =
                Inr ((if length parts = 1 then intro1 else intro) @ hd parts @
                     connect cs (tl parts) @ ''.'', g') \<and>
              length cs = length parts - 1 \<and>
              (\<forall>c\<in>set (butlast cs). c \<in> set transitions) \<and>
              (2 \<le> length parts \<longrightarrow> (last cs = ''and finally'' \<longleftrightarrow> 3 \<le> length parts)) \<and>
              (length parts = 2 \<longrightarrow> last cs \<in> set transitions)"
  from ne obtain p0 rest where parts: "parts = p0 # rest" by (cases parts) auto
  consider "rest = []" | p1 where "rest = [p1]" | "2 \<le> length rest"
    by (cases rest; cases "tl rest") auto
  then show "\<exists>cs g'. ?goal cs g'"
  proof cases
    case 1
    have "?goal [] g"
      by (simp add: parts 1 assemble_def connect_def)
    then show ?thesis by blast
  next
    case 2
    obtain t g1 where t: "get_random_transition g = (t, g1)"
      by (cases "get_random_transition g")
    then have tv: "t \<in> set transitions"
      using transition_in_vocabulary [of g] by simp
    then have "t \<noteq> ''and finally''" using finally_no_transition by blast
    with t tv have "?goal [t] g1"
      by (simp add: parts 2 assemble_def connect_def)
    then show ?thesis by blast
  next
    case 3
    then obtain a b more where rest: "rest = a # b # more"
      by (cases rest; cases "tl rest") auto
    obtain ts g1 where mid: "add_middle g (intro @ p0) (butlast rest) =
        ((intro @ p0) @ connect ts (butlast rest), g1)"
      and len: "length ts = length (butlast rest)" and sub: "set ts \<subseteq> set transitions"
      using add_middle_connect by blast
    have asm: "assemble g intro1 intro parts =
        Inr (((intro @ p0) @ connect ts (butlast rest)) @ '', and finally '' @ last rest @ ''.'', g1)"
      unfolding parts rest assemble_def list.case mid [unfolded rest] prod.case ..
    have "connect (ts @ [''and finally'']) (butlast rest @ [last rest]) =
          connect ts (butlast rest) @ '', '' @ ''and finally'' @ '' '' @ last rest"
      using len by (rule connect_snoc)
    moreover have "butlast rest @ [last rest] = rest"
      using rest by simp
    ultimately have con: "connect (ts @ [''and finally'']) rest =
          connect ts (butlast rest) @ '', and finally '' @ last rest"
      by simp
    have "?goal (ts @ [''and finally'']) g1"
      using asm con len sub 3 by (auto simp: parts)
    then show ?thesis by blast
  qed
qed

theorem narrative_connectives_witness:
  "[''A'', ''B'', ''C''] \<noteq> [] \<and>
   (\<exists>cs g'. assemble (\<lambda>i. i) ''One '' ''Many '' [''A'', ''B'', ''C''] =
                Inr ((if length [''A'', ''B'', ''C''] = 1 then ''One '' else ''Many '') @
                     hd [''A'', ''B'', ''C''] @ connect cs (tl [''A'', ''B'', ''C'']) @ ''.'', g') \<and>
              length cs = length [''A'', ''B'', ''C''] - 1 \<and>
              (\<forall>c\<in>set (butlast cs). c \<in> set transitions) \<and>
              (2 \<le> length [''A'', ''B'', ''C''] \<longrightarrow>
                 (last cs = ''and finally'' \<longleftrightarrow> 3 \<le> length [''A'', ''B'', ''C''])) \<and>
              (length [''A'', ''B'', ''C''] = 2 \<longrightarrow> last cs \<in> set transitions)) \<and>
   map_sum id fst (assemble (\<lambda>i. i) ''One '' ''Many '' [''A'', ''B'', ''C'']) =
     Inr ''Many A, followed by B, and finally C.''"
proof -
  have ne: "[''A'', ''B'', ''C''] \<noteq> ([] :: string list)"
    by simp
  have v: "map_sum id fst (assemble (\<lambda>i. i) ''One '' ''Many '' [''A'', ''B'', ''C'']) =
     Inr ''Many A, followed by B, and finally C.''"
    by (simp add: assemble_def get_random_transition_def transitions_def)
  from narrative_connectives [of "[''A'', ''B'', ''C'']" "\<lambda>i. i" "''One ''" "''Many ''"] ne v
  show ?thesis by blast
qed

end
